theory Spec2Isabelle
  imports Complex_Main "HOL-Library.Word"
begin

section \<open>Number model\<close>

text \<open>
  The program is TypeScript. Its \<open>number\<close> values are modelled as \<^typ>\<open>real\<close>: the
  arithmetic is the exact one, and the rounding of IEEE doubles is not part of the model.
  Loop counters, array indices and the integer accumulators of \<open>averageBand\<close> (sums of
  bytes, far below \<open>2 ^ 53\<close>) are \<^typ>\<open>nat\<close>. The \<open>Uint8Array\<close> that holds a frequency
  snapshot is a list of bytes, \<^typ>\<open>8 word list\<close>. \<open>Math.sin\<close> is \<^const>\<open>sin\<close>,
  \<open>Math.floor\<close> is \<^const>\<open>floor\<close>, and \<open>Math.pow\<close> on a non-negative base is
  \<^const>\<open>powr\<close> (with \<open>0 powr a = 0\<close>, as \<open>Math.pow(0, 0.8)\<close> is \<open>0\<close>).
\<close>

section \<open>Audio bands\<close>

datatype AudioMode = Mic | Tab

record AudioBands =
  bass :: real
  mid :: real
  treble :: real

definition EMPTY_BANDS :: AudioBands where
  "EMPTY_BANDS = \<lparr>bass = 0, mid = 0, treble = 0\<rparr>"

text \<open>
  \<open>THREE.MathUtils.lerp(x, y, t)\<close> of the three.js library, which computes
  \<open>(1 - t) * x + t * y\<close>. Over the reals this is \<open>x + (y - x) * t\<close>, the form in which
  the specification writes the smoothing step.
\<close>

definition lerp :: "real \<Rightarrow> real \<Rightarrow> real \<Rightarrow> real" where
  "lerp x y t = (1 - t) * x + t * y"

text \<open>
  The loop of \<open>averageBand\<close>:
  \<^verbatim>\<open>for (let i = start; i <= end && i < frequencyBuffer.length; i += 1) {
    sum += frequencyBuffer[i]; count += 1 }\<close>
  with the loop variable and both accumulators passed along.
\<close>

function averageBand_loop :: "8 word list \<Rightarrow> nat \<Rightarrow> nat \<Rightarrow> nat \<Rightarrow> nat \<Rightarrow> nat \<times> nat" where
  "averageBand_loop frequencyBuffer end_bin i sum_acc count =
     (if i \<le> end_bin \<and> i < length frequencyBuffer
      then averageBand_loop frequencyBuffer end_bin (i + 1)
             (sum_acc + unat (frequencyBuffer ! i)) (count + 1)
      else (sum_acc, count))"
  by pat_completeness auto
termination
  by (relation "measure (\<lambda>(buf, e, i, s, c). length buf - i)") auto

declare averageBand_loop.simps [simp del]

definition averageBand :: "8 word list \<Rightarrow> nat \<Rightarrow> nat \<Rightarrow> real" where
  "averageBand frequencyBuffer start_bin end_bin =
     (case averageBand_loop frequencyBuffer end_bin start_bin 0 0 of
        (sum_acc, count) \<Rightarrow>
          if count > 0 then real sum_acc / (real count * 255) else 0)"

text \<open>
  One extraction cycle, \<open>tick\<close>, after \<open>analyser.getByteFrequencyData(frequencyBuffer)\<close>
  has filled the buffer: the three band targets, then the three smoothed fields of
  \<open>bands.current\<close>. Rescheduling through \<open>requestAnimationFrame\<close> belongs to the
  capture lifecycle below.
\<close>

definition tick :: "8 word list \<Rightarrow> AudioBands \<Rightarrow> AudioBands" where
  "tick frequencyBuffer bands =
     (let bass_target = averageBand frequencyBuffer 0 14;
          mid_target = averageBand frequencyBuffer 18 70;
          treble_target = averageBand frequencyBuffer 90 180
      in bands\<lparr>bass := lerp (bass bands) bass_target 0.2,
               mid := lerp (mid bands) mid_target 0.2,
               treble := lerp (treble bands) treble_target 0.2\<rparr>)"

text \<open>\<open>n\<close> extraction cycles that all read the same snapshot.\<close>

definition ticks :: "nat \<Rightarrow> 8 word list \<Rightarrow> AudioBands \<Rightarrow> AudioBands" where
  "ticks n frequencyBuffer bands = (tick frequencyBuffer ^^ n) bands"


section \<open>Ridge outlines\<close>

definition pseudoRandom :: "real \<Rightarrow> real" where
  "pseudoRandom seed =
     (let x = sin (seed * 12.9898) * 43758.5453123
      in x - of_int \<lfloor>x\<rfloor>)"

datatype Side = Left | Right

text \<open>
  A \<open>THREE.Shape\<close> is the sequence of path calls made on it, in call order;
  \<open>new THREE.Shape()\<close> is the empty sequence, and each call appends.
\<close>

datatype PathCommand = MoveTo real real | LineTo real real | ClosePath

type_synonym Shape = "PathCommand list"

definition new_Shape :: Shape where
  "new_Shape = []"

definition moveTo :: "real \<Rightarrow> real \<Rightarrow> Shape \<Rightarrow> Shape" where
  "moveTo x y shape = shape @ [MoveTo x y]"

definition lineTo :: "real \<Rightarrow> real \<Rightarrow> Shape \<Rightarrow> Shape" where
  "lineTo x y shape = shape @ [LineTo x y]"

definition closePath :: "Shape \<Rightarrow> Shape" where
  "closePath shape = shape @ [ClosePath]"

text \<open>The points an outline passes through, in order; \<open>closePath\<close> adds none.\<close>

fun outline_points :: "Shape \<Rightarrow> (real \<times> real) list" where
  "outline_points [] = []"
| "outline_points (MoveTo x y # cs) = (x, y) # outline_points cs"
| "outline_points (LineTo x y # cs) = (x, y) # outline_points cs"
| "outline_points (ClosePath # cs) = outline_points cs"

text \<open>
  The sample loop of \<open>createRidgeShape\<close>,
  \<^verbatim>\<open>for (let i = 0; i <= points; i += 1) { ... shape.lineTo(x, y) }\<close>,
  with the shape passed along.
\<close>

function createRidgeShape_loop ::
  "real \<Rightarrow> real \<Rightarrow> real \<Rightarrow> real \<Rightarrow> real \<Rightarrow> nat \<Rightarrow> nat \<Rightarrow> Shape \<Rightarrow> Shape" where
  "createRidgeShape_loop outerX valleyX seed base_y height points i shape =
     (if i \<le> points
      then (let t = real i / real points;
                x = lerp outerX valleyX t;
                ridgeFalloff = (1 - t) powr 0.8;
                noise = 0.58 + pseudoRandom (seed + real i * 17.1) * 0.9;
                y = base_y + height * noise * ridgeFalloff
            in createRidgeShape_loop outerX valleyX seed base_y height points (i + 1)
                 (lineTo x y shape))
      else shape)"
  by pat_completeness auto
termination
  by (relation "measure (\<lambda>(ox, vx, sd, b, h, points, i, sh). points + 1 - i)") auto

declare createRidgeShape_loop.simps [simp del]

definition createRidgeShape :: "Side \<Rightarrow> real \<Rightarrow> real \<Rightarrow> real \<Rightarrow> real \<Rightarrow> Shape" where
  "createRidgeShape side seed base_y valley_half height =
     (let outerX = (if side = Left then - 14 else 14);
          valleyX = (if side = Left then - valley_half else valley_half);
          shape0 = new_Shape;
          points = 10;
          shape1 = moveTo outerX (- 4.8) shape0;
          shape2 = lineTo outerX (base_y + 0.2) shape1;
          shape3 = createRidgeShape_loop outerX valleyX seed base_y height points 0 shape2;
          shape4 = lineTo valleyX (- 4.8) shape3
      in closePath shape4)"

section \<open>Depth layers\<close>

text \<open>
  The colours are kept as the three arguments of \<open>setRGB\<close>; the style string that
  three.js formats from them is not modelled.
\<close>

record RidgeLayer =
  z :: real
  baseY :: real
  fill :: "real \<times> real \<times> real"
  stroke :: "real \<times> real \<times> real"
  valleyHalf :: real
  ridgeHeight :: real
  motion :: real
  leftShape :: Shape
  rightShape :: Shape

text \<open>The callback of \<open>Array.from({ length: 5 }).map((_, index) => ...)\<close>.\<close>

definition ValleyRanges_layer :: "nat \<Rightarrow> RidgeLayer" where
  "ValleyRanges_layer index =
     (let depth = real index / 4;
          z_pos = - 8.5 - real index * 1.45;
          valley_half = 3.4 - depth * 2.15;
          base_y = - 1.26 + depth * 0.42;
          ridge_height = 2.45 - depth * 0.92;
          colorMix = 0.2 + depth * 0.65;
          fill_rgb = (0.04 + colorMix * 0.15, 0.02, 0.14 + colorMix * 0.16);
          stroke_rgb = (0.1 + colorMix * 0.2, 0.5 + colorMix * 0.3, 0.95)
      in \<lparr>z = z_pos,
          baseY = base_y,
          fill = fill_rgb,
          stroke = stroke_rgb,
          valleyHalf = valley_half,
          ridgeHeight = ridge_height,
          motion = 0.08 + real index * 0.06,
          leftShape = createRidgeShape Left (30 + real index * 12.3) base_y valley_half ridge_height,
          rightShape = createRidgeShape Right (70 + real index * 13.7) base_y valley_half ridge_height\<rparr>)"

definition layers :: "RidgeLayer list" where
  "layers = map ValleyRanges_layer [0..<5]"

section \<open>Per-frame positioning\<close>

text \<open>
  A mounted \<open>THREE.Group\<close>, of which the frame callback writes \<open>position.y\<close> only.
  \<open>leftRefs.current\<close> and \<open>rightRefs.current\<close> are arrays of groups or \<open>null\<close>;
  reading past the end of a JavaScript array gives \<open>undefined\<close>, which the guards
  \<open>if (left)\<close> and \<open>if (right)\<close> treat like \<open>null\<close>.
\<close>

record Group =
  position_y :: real

record Refs =
  leftRefs :: "Group option list"
  rightRefs :: "Group option list"

definition ref_at :: "Group option list \<Rightarrow> nat \<Rightarrow> Group option" where
  "ref_at refs index = (if index < length refs then refs ! index else None)"

definition set_position_y :: "Group option list \<Rightarrow> nat \<Rightarrow> real \<Rightarrow> Group option list" where
  "set_position_y refs index y =
     (case ref_at refs index of
        Some grp \<Rightarrow> refs[index := Some (grp\<lparr>position_y := y\<rparr>)]
      | None \<Rightarrow> refs)"

text \<open>The body of \<open>layers.forEach((layer, index) => ...)\<close> in the frame callback.\<close>

definition position_layer :: "real \<Rightarrow> real \<Rightarrow> nat \<times> RidgeLayer \<Rightarrow> Refs \<Rightarrow> Refs" where
  "position_layer t pulse entry refs =
     (case entry of (index, layer) \<Rightarrow>
        (let drift = sin (t * (0.34 + motion layer) + real index * 0.62) * motion layer;
             lift = pulse * motion layer * 0.65;
             y = drift + lift
         in \<lparr>leftRefs = set_position_y (leftRefs refs) index y,
             rightRefs = set_position_y (rightRefs refs) index (y * 0.9)\<rparr>))"

text \<open>
  The frame callback of \<open>ValleyRanges\<close>: \<open>t\<close> is \<open>clock.getElapsedTime()\<close> and the
  bands are \<open>bands.current\<close>.
\<close>

definition ValleyRanges_frame :: "real \<Rightarrow> AudioBands \<Rightarrow> Refs \<Rightarrow> Refs" where
  "ValleyRanges_frame t bands refs =
     (let pulse = mid bands
      in fold (position_layer t pulse) (List.enumerate 0 layers) refs)"


section \<open>Capture lifecycle\<close>

text \<open>
  \<open>useAudioBands(mode, enabled)\<close> holds \<open>bands.current\<close> and one effect with the
  dependencies \<open>[mode, enabled]\<close>. When a dependency changes, React runs the cleanup
  that the previous run of the effect returned, if it returned one, and then runs the
  effect body again. A run of the body with \<open>enabled\<close> true creates a capture: the
  closure with its own \<open>cancelled\<close> and \<open>animationFrameId\<close>, and the point that
  its \<open>init\<close> has reached:
  \<^item> \<open>Acquiring\<close>: waiting for \<open>getDisplayMedia\<close> or \<open>getUserMedia\<close>;
  \<^item> \<open>Resuming\<close>: past the \<open>if (cancelled) return\<close> check, waiting for
    \<open>audioContext.resume()\<close>;
  \<^item> \<open>Ticking\<close>: \<open>tick\<close> has run and its next call is scheduled under the handle
    \<open>animationFrameId\<close>;
  \<^item> \<open>Ended\<close>: \<open>init\<close> has returned or thrown, or the scheduled call was cancelled.
  The promises and the animation frames are events from the browser. What the browser does
  with the stream and the audio context is outside the model: a snapshot is whatever bytes
  the event carries, and both outcomes of a pending promise are possible events.
\<close>

datatype Phase = Acquiring | Resuming | Ticking | Ended

record Capture =
  cancelled :: bool
  animationFrameId :: nat
  phase :: Phase

text \<open>
  \<open>cleanup_of\<close> is the capture whose cleanup function React holds; \<open>next_handle\<close> is
  the handle that the next \<open>requestAnimationFrame\<close> returns (handles are greater than
  zero).
\<close>

record Hook =
  mode :: AudioMode
  enabled :: bool
  bands_current :: AudioBands
  error :: "string option"
  captures :: "Capture list"
  cleanup_of :: "nat option"
  next_handle :: nat

datatype Event =
    SetEnabled bool
  | SetMode AudioMode
  | AcquireOk nat
  | AcquireFail nat string
  | ResumeOk nat "8 word list"
  | ResumeFail nat string
  | Frame nat "8 word list"

definition update_capture :: "nat \<Rightarrow> (Capture \<Rightarrow> Capture) \<Rightarrow> Hook \<Rightarrow> Hook" where
  "update_capture k f h = h\<lparr>captures := (captures h)[k := f (captures h ! k)]\<rparr>"

text \<open>
  The cleanup function of capture \<open>k\<close>:
  \<^verbatim>\<open>cancelled = true
  if (animationFrameId) cancelAnimationFrame(animationFrameId)\<close>
  (then the tracks are stopped and the audio context is closed). Cancelling removes the
  scheduled call of \<open>tick\<close>, which exists when the capture is \<open>Ticking\<close>.
\<close>

definition cleanup :: "nat \<Rightarrow> Hook \<Rightarrow> Hook" where
  "cleanup k h =
     update_capture k
       (\<lambda>c. let c1 = c\<lparr>cancelled := True\<rparr>
            in if animationFrameId c1 \<noteq> 0 \<and> phase c1 = Ticking
               then c1\<lparr>phase := Ended\<rparr> else c1) h"

text \<open>
  The effect body:
  \<^verbatim>\<open>if (!enabled) { bands.current = { ...EMPTY_BANDS }; return }\<close>
  and otherwise a new capture, whose \<open>init\<close> starts to acquire the stream, and whose
  cleanup is returned.
\<close>

definition run_effect :: "Hook \<Rightarrow> Hook" where
  "run_effect h =
     (if \<not> enabled h
      then h\<lparr>bands_current := EMPTY_BANDS, cleanup_of := None\<rparr>
      else h\<lparr>captures := captures h @ [\<lparr>cancelled = False, animationFrameId = 0, phase = Acquiring\<rparr>],
             cleanup_of := Some (length (captures h))\<rparr>)"

definition rerun_effect :: "Hook \<Rightarrow> Hook" where
  "rerun_effect h =
     run_effect (case cleanup_of h of Some k \<Rightarrow> cleanup k h | None \<Rightarrow> h)"

text \<open>
  One call of \<open>tick\<close> in capture \<open>k\<close>: the bands are smoothed toward the snapshot and
  \<open>animationFrameId = requestAnimationFrame(tick)\<close> schedules the next call.
\<close>

definition capture_tick :: "nat \<Rightarrow> 8 word list \<Rightarrow> Hook \<Rightarrow> Hook" where
  "capture_tick k frequencyBuffer h =
     update_capture k (\<lambda>c. c\<lparr>animationFrameId := next_handle h, phase := Ticking\<rparr>)
       (h\<lparr>bands_current := tick frequencyBuffer (bands_current h),
          next_handle := next_handle h + 1\<rparr>)"

definition in_phase :: "Hook \<Rightarrow> nat \<Rightarrow> Phase \<Rightarrow> bool" where
  "in_phase h k p = (k < length (captures h) \<and> phase (captures h ! k) = p)"

fun step :: "Hook \<Rightarrow> Event \<Rightarrow> Hook" where
  "step h (SetEnabled b) =
     (if b = enabled h then h else rerun_effect (h\<lparr>enabled := b\<rparr>))"
| "step h (SetMode m) =
     (if m = mode h then h else rerun_effect (h\<lparr>mode := m\<rparr>))"
| "step h (AcquireOk k) =
     (if in_phase h k Acquiring
      then (if cancelled (captures h ! k)
            then update_capture k (\<lambda>c. c\<lparr>phase := Ended\<rparr>) h
            else update_capture k (\<lambda>c. c\<lparr>phase := Resuming\<rparr>) (h\<lparr>error := None\<rparr>))
      else h)"
| "step h (AcquireFail k message) =
     (if in_phase h k Acquiring
      then update_capture k (\<lambda>c. c\<lparr>phase := Ended\<rparr>) (h\<lparr>error := Some message\<rparr>)
      else h)"
| "step h (ResumeOk k frequencyBuffer) =
     (if in_phase h k Resuming then capture_tick k frequencyBuffer h else h)"
| "step h (ResumeFail k message) =
     (if in_phase h k Resuming
      then update_capture k (\<lambda>c. c\<lparr>phase := Ended\<rparr>) (h\<lparr>error := Some message\<rparr>)
      else h)"
| "step h (Frame k frequencyBuffer) =
     (if in_phase h k Ticking then capture_tick k frequencyBuffer h else h)"

definition run :: "Hook \<Rightarrow> Event list \<Rightarrow> Hook" where
  "run h events = foldl step h events"

text \<open>
  The hook after the first render of \<open>RetroWaveVisualizer\<close>: \<open>useState('tab')\<close>,
  \<open>useState(false)\<close>, \<open>useRef({ ...EMPTY_BANDS })\<close>, and the first run of the effect.
\<close>

definition mount :: Hook where
  "mount = run_effect \<lparr>mode = Tab, enabled = False, bands_current = EMPTY_BANDS,
                       error = None, captures = [], cleanup_of = None, next_handle = 1\<rparr>"

text \<open>
  An event starts a capture when it is the acquisition of a capture that has not been
  cancelled resolving with a stream.
\<close>

fun starts :: "Hook \<Rightarrow> Event \<Rightarrow> bool" where
  "starts h (AcquireOk k) = (in_phase h k Acquiring \<and> \<not> cancelled (captures h ! k))"
| "starts h _ = False"

fun no_start :: "Hook \<Rightarrow> Event list \<Rightarrow> bool" where
  "no_start h [] = True"
| "no_start h (e # es) = (\<not> starts h e \<and> no_start (step h e) es)"

text \<open>
  A hook is orderly when the only capture past its acquisition is the one whose cleanup
  React holds, and that capture has ticked: no capture is waiting for
  \<open>audioContext.resume()\<close>, and no capture ticks that no cleanup can reach.
\<close>

definition orderly_capture :: "Hook \<Rightarrow> nat \<Rightarrow> bool" where
  "orderly_capture h k =
     (let c = captures h ! k
      in phase c = Acquiring \<or> phase c = Ended \<or>
         (phase c = Ticking \<and> animationFrameId c \<noteq> 0 \<and> cleanup_of h = Some k))"

definition orderly :: "Hook \<Rightarrow> bool" where
  "orderly h = list_all (orderly_capture h) [0..<length (captures h)]"

text \<open>
  A hook has cooled down when the bands are at the all-zero baseline and no capture is
  past its acquisition, so that nothing is scheduled that writes the bands.
\<close>

definition cooled :: "Hook \<Rightarrow> bool" where
  "cooled h =
     (bands_current h = EMPTY_BANDS \<and>
      list_all (\<lambda>c. phase c = Acquiring \<or> phase c = Ended) (captures h))"

text \<open>
  A trace is prompt when \<open>audioContext.resume()\<close> settles before anything else happens:
  every resolved acquisition is directly followed by the outcome of the resume of the same
  capture, and no outcome of a resume occurs anywhere else.
\<close>

fun prompt :: "Event list \<Rightarrow> bool" where
  "prompt [] = True"
| "prompt (AcquireOk k # ResumeOk j frequencyBuffer # es) = (j = k \<and> prompt es)"
| "prompt (AcquireOk k # ResumeFail j message # es) = (j = k \<and> prompt es)"
| "prompt (AcquireOk k # es) = False"
| "prompt (ResumeOk k frequencyBuffer # es) = False"
| "prompt (ResumeFail k message # es) = False"
| "prompt (e # es) = prompt es"

text \<open>
  The invariant of prompt traces: the hook is orderly, the next handle is greater than
  zero, and a capture that has not been cancelled is the one whose cleanup React holds.
\<close>

definition settled :: "Hook \<Rightarrow> bool" where
  "settled h =
     (orderly h \<and> 0 < next_handle h \<and>
      list_all (\<lambda>k. \<not> cancelled (captures h ! k) \<longrightarrow> cleanup_of h = Some k)
        [0..<length (captures h)])"

section \<open>Band extraction: properties\<close>

lemma averageBand_loop_closed:
  "averageBand_loop buf e i s c =
     (s + (\<Sum>k = i..<min (e + 1) (length buf). unat (buf ! k)),
      c + (min (e + 1) (length buf) - i))"
proof (induction buf e i s c rule: averageBand_loop.induct)
  case (1 buf e i s c)
  show ?case
  proof (cases "i \<le> e \<and> i < length buf")
    case True
    then have lt: "i < min (e + 1) (length buf)" by simp
    have "averageBand_loop buf e i s c =
            averageBand_loop buf e (i + 1) (s + unat (buf ! i)) (c + 1)"
      using True by (subst averageBand_loop.simps) simp
    also have "\<dots> = (s + unat (buf ! i) + (\<Sum>k = i + 1..<min (e + 1) (length buf). unat (buf ! k)),
                     c + 1 + (min (e + 1) (length buf) - (i + 1)))"
      using "1.IH" [OF True] .
    also have "\<dots> = (s + (\<Sum>k = i..<min (e + 1) (length buf). unat (buf ! k)),
                     c + (min (e + 1) (length buf) - i))"
    proof -
      have "(\<Sum>k = i..<min (e + 1) (length buf). unat (buf ! k)) =
              unat (buf ! i) + (\<Sum>k = i + 1..<min (e + 1) (length buf). unat (buf ! k))"
        using lt by (simp add: sum.atLeast_Suc_lessThan)
      moreover have "c + 1 + (min (e + 1) (length buf) - (i + 1)) =
                       c + (min (e + 1) (length buf) - i)"
        using lt by arith
      ultimately show ?thesis by simp
    qed
    finally show ?thesis .
  next
    case False
    then have "min (e + 1) (length buf) \<le> i" by auto
    moreover have "averageBand_loop buf e i s c = (s, c)"
      using False by (subst averageBand_loop.simps) auto
    ultimately show ?thesis by simp
  qed
qed

lemma averageBand_closed:
  "averageBand buf s e =
     (if s < min (e + 1) (length buf)
      then real (\<Sum>k = s..<min (e + 1) (length buf). unat (buf ! k)) /
             (real (min (e + 1) (length buf) - s) * 255)
      else 0)"
  by (simp add: averageBand_def averageBand_loop_closed)

lemma band_sum_le:
  "(\<Sum>k = a..<b. unat ((buf :: 8 word list) ! k)) \<le> (b - a) * 255"
proof -
  have "\<And>k. unat (buf ! k) \<le> 255"
  proof -
    fix k
    have "unat (buf ! k) < 2 ^ LENGTH(8)" by (rule unsigned_less)
    then show "unat (buf ! k) \<le> 255" by simp
  qed
  then have "(\<Sum>k = a..<b. unat (buf ! k)) \<le> (\<Sum>k = a..<b. 255)"
    by (intro sum_mono) simp
  then show ?thesis by simp
qed


text \<open>
  C2. \<open>averageBand\<close> returns the arithmetic mean of the snapshot bytes over the inclusive
  bin range from \<open>start_bin\<close> to the smaller of \<open>end_bin\<close> and the last valid bin,
  divided by 255, whenever that range is not empty, and 0 when it is empty
  (\<open>start_bin\<close> past the last valid bin, or \<open>start_bin > end_bin\<close>); the result always
  lies in \<open>[0, 1]\<close>. The bytes of a \<open>Uint8Array\<close> lie in \<open>[0, 255]\<close> by their type.
\<close>

theorem averageBand_mean:
  "averageBand buf start_bin end_bin =
     (if start_bin \<le> end_bin \<and> start_bin < length buf
      then (\<Sum>k = start_bin..min end_bin (length buf - 1). real (unat (buf ! k))) /
             real (min end_bin (length buf - 1) - start_bin + 1) / 255
      else 0)
   \<and> 0 \<le> averageBand buf start_bin end_bin
   \<and> averageBand buf start_bin end_bin \<le> 1"
proof (cases "start_bin \<le> end_bin \<and> start_bin < length buf")
  case True
  let ?hi = "min (end_bin + 1) (length buf)"
  let ?S = "\<Sum>k = start_bin..<?hi. unat (buf ! k)"
  from True have lt: "start_bin < ?hi" by simp
  have cnt: "min end_bin (length buf - 1) - start_bin + 1 = ?hi - start_bin"
    using True by arith
  have val: "averageBand buf start_bin end_bin = real ?S / (real (?hi - start_bin) * 255)"
    using lt by (simp add: averageBand_closed)
  have "real ?S \<le> real ((?hi - start_bin) * 255)"
    using band_sum_le [where a = start_bin and b = ?hi and buf = buf] by (simp only: of_nat_le_iff)
  then have le: "real ?S \<le> real (?hi - start_bin) * 255" by simp
  have pos: "0 < real (?hi - start_bin) * 255" using lt by simp
  have up: "averageBand buf start_bin end_bin \<le> 1"
    unfolding val using le pos by (simp only: divide_le_eq_1_pos)
  have lo: "0 \<le> averageBand buf start_bin end_bin"
    unfolding val by (rule divide_nonneg_nonneg) (rule of_nat_0_le_iff, rule less_imp_le [OF pos])
  have eq: "averageBand buf start_bin end_bin =
      (\<Sum>k = start_bin..min end_bin (length buf - 1). real (unat (buf ! k))) /
             real (min end_bin (length buf - 1) - start_bin + 1) / 255"
  proof -
    have rng: "{start_bin..min end_bin (length buf - 1)} = {start_bin..<?hi}"
      using True by auto
    have "(\<Sum>k = start_bin..min end_bin (length buf - 1). real (unat (buf ! k))) = real ?S"
      unfolding rng by (rule of_nat_sum [symmetric])
    then show ?thesis
      by (simp only: val cnt divide_divide_eq_left)
  qed
  show ?thesis
    by (subst if_P [OF True]) (intro conjI eq lo up)
next
  case False
  then have "\<not> start_bin < min (end_bin + 1) (length buf)" by auto
  then have "averageBand buf start_bin end_bin = 0"
    by (subst averageBand_closed) (simp only: if_False)
  then show ?thesis
    by (subst if_not_P [OF False]) simp
qed

theorem averageBand_mean_witness:
  "averageBand [255, 0, 51] 0 5 = 2 / 5 \<and> averageBand [255, 0, 51] 3 5 = 0
   \<and> averageBand [255, 0, 51] 2 1 = 0"
proof -
  have rng: "{0..2::nat} = {0, 1, 2}" by auto
  show ?thesis
    using averageBand_mean [of "[255, 0, 51]" 0 5] averageBand_mean [of "[255, 0, 51]" 3 5]
      averageBand_mean [of "[255, 0, 51]" 2 1]
    by (simp add: rng)
qed

section \<open>Smoothing: properties\<close>

lemma lerp_toward: "lerp p v f = p + (v - p) * f"
  by (simp add: lerp_def algebra_simps)

lemma lerp_iterate: "((\<lambda>p. lerp p v f) ^^ n) s - v = (s - v) * (1 - f) ^ n"
proof (induction n)
  case 0
  show ?case by simp
next
  case (Suc n)
  have "((\<lambda>p. lerp p v f) ^^ Suc n) s - v =
          (((\<lambda>p. lerp p v f) ^^ n) s - v) * (1 - f)"
    by (simp add: lerp_def algebra_simps)
  then show ?case by (simp add: Suc.IH)
qed

lemma tick_fields:
  "bass (tick buf b) = lerp (bass b) (averageBand buf 0 14) 0.2"
  "mid (tick buf b) = lerp (mid b) (averageBand buf 18 70) 0.2"
  "treble (tick buf b) = lerp (treble b) (averageBand buf 90 180) 0.2"
  by (simp_all add: tick_def Let_def)

lemma ticks_fields:
  "bass (ticks n buf b) = ((\<lambda>p. lerp p (averageBand buf 0 14) 0.2) ^^ n) (bass b)"
  "mid (ticks n buf b) = ((\<lambda>p. lerp p (averageBand buf 18 70) 0.2) ^^ n) (mid b)"
  "treble (ticks n buf b) = ((\<lambda>p. lerp p (averageBand buf 90 180) 0.2) ^^ n) (treble b)"
  by (induction n) (simp_all add: ticks_def tick_fields)






lemma averageBand_const:
  assumes "s \<le> e" "e < length buf" "\<forall>i\<in>{s..e}. buf ! i = w"
  shows "averageBand buf s e = real (unat w) / 255"
proof -
  have hi: "min (e + 1) (length buf) = e + 1" using assms(2) by simp
  have "(\<Sum>k = s..<e + 1. unat (buf ! k)) = (\<Sum>k = s..<e + 1. unat w)"
    using assms(3) by (intro sum.cong) auto
  then have sm: "(\<Sum>k = s..<e + 1. unat (buf ! k)) = (e + 1 - s) * unat w"
    by simp
  have nz: "real (e + 1 - s) \<noteq> 0" using assms(1) by simp
  have "averageBand buf s e = real ((e + 1 - s) * unat w) / (real (e + 1 - s) * 255)"
    using assms(1) by (simp only: averageBand_closed hi sm) simp
  also have "\<dots> = real (unat w) / 255"
    unfolding of_nat_mult by (rule mult_divide_mult_cancel_left [OF nz])
  finally show ?thesis .
qed

text \<open>
  C7. Starting from all-zero bands, a snapshot with bins 0 to 14 at 255 and bins 18 to 70
  and 90 to 180 at 0 gives, after one extraction cycle, \<open>bass = 0.2\<close>, \<open>mid = 0\<close> and
  \<open>treble = 0\<close>; after ten such cycles \<open>bass = 1 - 0.8 ^ 10\<close>, which is 0.8926 to four
  decimal places, and \<open>mid\<close> and \<open>treble\<close> are still 0.
\<close>

theorem end_to_end_scenario:
  assumes "181 \<le> length buf"
    and "\<forall>i\<in>{0..14}. buf ! i = 255"
    and "\<forall>i\<in>{18..70}. buf ! i = 0"
    and "\<forall>i\<in>{90..180}. buf ! i = 0"
  shows "tick buf EMPTY_BANDS = \<lparr>bass = 0.2, mid = 0, treble = 0\<rparr>
    \<and> bass (ticks 10 buf EMPTY_BANDS) = 1 - 0.8 ^ 10
    \<and> \<bar>bass (ticks 10 buf EMPTY_BANDS) - 0.8926\<bar> < 0.0001
    \<and> mid (ticks 10 buf EMPTY_BANDS) = 0
    \<and> treble (ticks 10 buf EMPTY_BANDS) = 0"
proof -
  have b: "averageBand buf 0 14 = 1"
    using averageBand_const [of 0 14 buf 255] assms(1,2) by simp
  have m: "averageBand buf 18 70 = 0"
    using averageBand_const [of 18 70 buf 0] assms(1,3) by simp
  have t: "averageBand buf 90 180 = 0"
    using averageBand_const [of 90 180 buf 0] assms(1,4) by simp
  have one: "tick buf EMPTY_BANDS = \<lparr>bass = 0.2, mid = 0, treble = 0\<rparr>"
    by (simp add: tick_def b m t EMPTY_BANDS_def lerp_def)
  have "bass (ticks 10 buf EMPTY_BANDS) - 1 = (0 - 1) * (1 - 0.2) ^ 10"
    unfolding ticks_fields b by (simp only: lerp_iterate EMPTY_BANDS_def AudioBands.simps)
  then have ten: "bass (ticks 10 buf EMPTY_BANDS) = 1 - 0.8 ^ 10"
    by simp
  have "mid (ticks 10 buf EMPTY_BANDS) - 0 = (0 - 0) * (1 - 0.2) ^ 10"
    unfolding ticks_fields m by (simp only: lerp_iterate EMPTY_BANDS_def AudioBands.simps)
  then have mid10: "mid (ticks 10 buf EMPTY_BANDS) = 0" by simp
  have "treble (ticks 10 buf EMPTY_BANDS) - 0 = (0 - 0) * (1 - 0.2) ^ 10"
    unfolding ticks_fields t by (simp only: lerp_iterate EMPTY_BANDS_def AudioBands.simps)
  then have treble10: "treble (ticks 10 buf EMPTY_BANDS) = 0" by simp
  have approx: "\<bar>bass (ticks 10 buf EMPTY_BANDS) - 0.8926\<bar> < 0.0001"
    unfolding ten by (simp add: power_divide)
  show ?thesis
    by (intro conjI one ten approx mid10 treble10)
qed

theorem end_to_end_scenario_witness:
  "181 \<le> length (replicate 15 255 @ replicate 241 0 :: 8 word list)
   \<and> tick (replicate 15 255 @ replicate 241 0) EMPTY_BANDS = \<lparr>bass = 0.2, mid = 0, treble = 0\<rparr>
   \<and> bass (ticks 10 (replicate 15 255 @ replicate 241 0) EMPTY_BANDS) = 1 - 0.8 ^ 10"
proof -
  let ?buf = "replicate 15 255 @ replicate 241 0 :: 8 word list"
  have 1: "181 \<le> length ?buf" by simp
  have 2: "\<forall>i\<in>{0..14}. ?buf ! i = 255" by (auto simp: nth_append)
  have 3: "\<forall>i\<in>{18..70}. ?buf ! i = 0" by (auto simp: nth_append)
  have 4: "\<forall>i\<in>{90..180}. ?buf ! i = 0" by (auto simp: nth_append)
  show ?thesis
    using 1 end_to_end_scenario [OF 1 2 3 4] by simp
qed

section \<open>Ridge outlines: properties\<close>

lemma createRidgeShape_loop_closed:
  "createRidgeShape_loop outerX valleyX seed base_y height points i shape =
     shape @ map (\<lambda>k. LineTo (lerp outerX valleyX (real k / real points))
                         (base_y + height * (0.58 + pseudoRandom (seed + real k * 17.1) * 0.9)
                            * (1 - real k / real points) powr 0.8))
               [i..<points + 1]"
proof (induction outerX valleyX seed base_y height points i shape
       rule: createRidgeShape_loop.induct)
  case (1 outerX valleyX seed base_y height points i shape)
  show ?case
  proof (cases "i \<le> points")
    case True
    let ?x = "lerp outerX valleyX (real i / real points)"
    let ?y = "base_y + height * (0.58 + pseudoRandom (seed + real i * 17.1) * 0.9)
                * (1 - real i / real points) powr 0.8"
    from True have upt: "[i..<points + 1] = i # [i + 1..<points + 1]"
      by (simp add: upt_conv_Cons)
    have "createRidgeShape_loop outerX valleyX seed base_y height points i shape =
            createRidgeShape_loop outerX valleyX seed base_y height points (i + 1)
              (lineTo ?x ?y shape)"
      using True by (subst createRidgeShape_loop.simps) (simp add: Let_def)
    also have "\<dots> = lineTo ?x ?y shape @
        map (\<lambda>k. LineTo (lerp outerX valleyX (real k / real points))
                         (base_y + height * (0.58 + pseudoRandom (seed + real k * 17.1) * 0.9)
                            * (1 - real k / real points) powr 0.8))
            [i + 1..<points + 1]"
      by (rule "1.IH" [OF True refl refl refl refl refl])
    finally show ?thesis
      unfolding upt lineTo_def by simp
  next
    case False
    then show ?thesis
      by (subst createRidgeShape_loop.simps) simp
  qed
qed

lemma outline_points_append:
  "outline_points (cs @ ds) = outline_points cs @ outline_points ds"
  by (induction cs rule: outline_points.induct) simp_all

lemma outline_points_samples:
  "outline_points (map (\<lambda>k. LineTo (f k) (g k)) ks) = map (\<lambda>k. (f k, g k)) ks"
  by (induction ks) simp_all

lemma createRidgeShape_closed:
  "createRidgeShape side seed base_y valley_half height =
     [MoveTo (if side = Left then - 14 else 14) (- 4.8),
      LineTo (if side = Left then - 14 else 14) (base_y + 0.2)]
     @ map (\<lambda>k. LineTo (lerp (if side = Left then - 14 else 14)
                            (if side = Left then - valley_half else valley_half) (real k / 10))
                         (base_y + height * (0.58 + pseudoRandom (seed + real k * 17.1) * 0.9)
                            * (1 - real k / 10) powr 0.8))
           [0..<11]
     @ [LineTo (if side = Left then - valley_half else valley_half) (- 4.8), ClosePath]"
  by (simp add: createRidgeShape_def Let_def createRidgeShape_loop_closed new_Shape_def
      moveTo_def lineTo_def closePath_def del: upt_Suc)

lemma pseudoRandom_range: "0 \<le> pseudoRandom x \<and> pseudoRandom x < 1"
  unfolding pseudoRandom_def Let_def by linarith

text \<open>
  C5. The outline starts with the two points at the outer edge; its next eleven points
  are the ridge samples \<open>i = 0, \<dots>, 10\<close>. With \<open>t = i / 10\<close>, the vertical position
  of sample \<open>i\<close> is \<open>baseline + height * (0.58 + noise * 0.9) * (1 - t) powr 0.8\<close>, where
  \<open>noise = pseudoRandom (seed + i * 17.1)\<close> lies in \<open>[0, 1)\<close>, and its horizontal position
  is the linear interpolation \<open>outerX + (valleyX - outerX) * t\<close> from the outer edge
  (\<open>-14\<close> on the left, \<open>14\<close> on the right) toward the valley edge (\<open>-valleyHalf\<close> on the
  left, \<open>valleyHalf\<close> on the right). With the closing point at the valley edge the outline
  has 14 points.
\<close>

theorem ridge_sample:
  assumes "i \<le> 10"
    and "outerX = (if side = Left then - 14 else 14)"
    and "valleyX = (if side = Left then - valley_half else valley_half)"
  shows "createRidgeShape side seed base_y valley_half height ! (i + 2) =
           LineTo (lerp outerX valleyX (real i / 10))
                  (base_y + height * (0.58 + pseudoRandom (seed + real i * 17.1) * 0.9)
                     * (1 - real i / 10) powr 0.8)
     \<and> outline_points (createRidgeShape side seed base_y valley_half height) ! (i + 2) =
           (lerp outerX valleyX (real i / 10),
            base_y + height * (0.58 + pseudoRandom (seed + real i * 17.1) * 0.9)
              * (1 - real i / 10) powr 0.8)
     \<and> 0 \<le> pseudoRandom (seed + real i * 17.1) \<and> pseudoRandom (seed + real i * 17.1) < 1
     \<and> lerp outerX valleyX (real i / 10) = outerX + (valleyX - outerX) * (real i / 10)
     \<and> length (outline_points (createRidgeShape side seed base_y valley_half height)) = 14"
proof -
  have cmd: "createRidgeShape side seed base_y valley_half height ! (i + 2) =
           LineTo (lerp outerX valleyX (real i / 10))
                  (base_y + height * (0.58 + pseudoRandom (seed + real i * 17.1) * 0.9)
                     * (1 - real i / 10) powr 0.8)"
    using assms(1) unfolding assms(2,3)
    by (simp add: createRidgeShape_closed nth_append nth_upt del: upt_Suc)
  have pts: "outline_points (createRidgeShape side seed base_y valley_half height) ! (i + 2) =
           (lerp outerX valleyX (real i / 10),
            base_y + height * (0.58 + pseudoRandom (seed + real i * 17.1) * 0.9)
              * (1 - real i / 10) powr 0.8)"
    using assms(1) unfolding assms(2,3)
    by (simp add: createRidgeShape_closed outline_points_append outline_points_samples
        nth_append nth_upt del: upt_Suc)
  have len: "length (outline_points (createRidgeShape side seed base_y valley_half height)) = 14"
    by (simp add: createRidgeShape_closed outline_points_append outline_points_samples
        del: upt_Suc)
  have lin: "lerp outerX valleyX (real i / 10) = outerX + (valleyX - outerX) * (real i / 10)"
    by (rule lerp_toward)
  show ?thesis
    using pseudoRandom_range [of "seed + real i * 17.1"]
    by (intro conjI cmd pts lin len) simp_all
qed

theorem ridge_sample_witness:
  "(10::nat) \<le> 10 \<and> createRidgeShape Right 0 0 2 1 ! 12 = LineTo 2 0
   \<and> outline_points (createRidgeShape Right 0 0 2 1) ! 12 = (2, 0)"
  using ridge_sample [of 10 14 Right 2 2 0 0 1] by (simp add: lerp_def)



section \<open>Depth layers: properties\<close>

lemma length_layers: "length layers = 5"
  by (simp add: layers_def)

lemma nth_layers: "i < 5 \<Longrightarrow> layers ! i = ValleyRanges_layer i"
  by (simp add: layers_def)

lemma layer_fields:
  "valleyHalf (ValleyRanges_layer i) = 3.4 - real i / 4 * 2.15"
  "baseY (ValleyRanges_layer i) = - 1.26 + real i / 4 * 0.42"
  "ridgeHeight (ValleyRanges_layer i) = 2.45 - real i / 4 * 0.92"
  "motion (ValleyRanges_layer i) = 0.08 + real i * 0.06"
  by (simp_all add: ValleyRanges_layer_def Let_def)

text \<open>
  C4. There are five layers, and from any depth index to any larger one the valley
  half-width strictly decreases, the ridge height strictly decreases and the motion
  coefficient strictly increases.
\<close>

theorem depth_monotonicity:
  "length layers = 5 \<and>
   (i < j \<and> j < length layers \<longrightarrow>
      valleyHalf (layers ! j) < valleyHalf (layers ! i)
      \<and> ridgeHeight (layers ! j) < ridgeHeight (layers ! i)
      \<and> motion (layers ! i) < motion (layers ! j))"
  by (simp add: length_layers nth_layers layer_fields)

theorem depth_monotonicity_witness:
  "(0::nat) < 4 \<and> 4 < length layers
   \<and> valleyHalf (layers ! 4) < valleyHalf (layers ! 0)
   \<and> ridgeHeight (layers ! 4) < ridgeHeight (layers ! 0)
   \<and> motion (layers ! 0) < motion (layers ! 4)"
  using depth_monotonicity [of 0 4] by simp




section \<open>Per-frame positioning: properties\<close>

lemma ref_at_set_position_y:
  "ref_at (set_position_y refs i y) j =
     (if j = i then map_option (\<lambda>g. g\<lparr>position_y := y\<rparr>) (ref_at refs i) else ref_at refs j)"
  by (cases "ref_at refs i") (auto simp: set_position_y_def ref_at_def split: if_splits)

lemma position_layer_left:
  "ref_at (leftRefs (position_layer t p (i, l) refs)) j =
     (if j = i
      then map_option
             (\<lambda>g. g\<lparr>position_y :=
                sin (t * (0.34 + motion l) + real i * 0.62) * motion l + p * motion l * 0.65\<rparr>)
             (ref_at (leftRefs refs) i)
      else ref_at (leftRefs refs) j)"
  by (simp add: position_layer_def Let_def ref_at_set_position_y)

lemma position_layer_right:
  "ref_at (rightRefs (position_layer t p (i, l) refs)) j =
     (if j = i
      then map_option
             (\<lambda>g. g\<lparr>position_y :=
                (sin (t * (0.34 + motion l) + real i * 0.62) * motion l + p * motion l * 0.65)
                * 0.9\<rparr>)
             (ref_at (rightRefs refs) i)
      else ref_at (rightRefs refs) j)"
  by (simp add: position_layer_def Let_def ref_at_set_position_y)

lemma fold_position_left:
  "ref_at (leftRefs (fold (position_layer t p) (List.enumerate n ls) refs)) j =
     (if n \<le> j \<and> j < n + length ls
      then map_option
             (\<lambda>g. g\<lparr>position_y :=
                sin (t * (0.34 + motion (ls ! (j - n))) + real j * 0.62) * motion (ls ! (j - n))
                + p * motion (ls ! (j - n)) * 0.65\<rparr>)
             (ref_at (leftRefs refs) j)
      else ref_at (leftRefs refs) j)"
proof (induction ls arbitrary: n refs)
  case Nil
  show ?case by auto
next
  case (Cons l ls)
  have "ref_at (leftRefs (fold (position_layer t p) (List.enumerate n (l # ls)) refs)) j =
          ref_at (leftRefs (fold (position_layer t p) (List.enumerate (Suc n) ls)
            (position_layer t p (n, l) refs))) j"
    by simp
  also have "\<dots> = (if n \<le> j \<and> j < n + length (l # ls)
      then map_option
             (\<lambda>g. g\<lparr>position_y := sin (t * (0.34 + motion ((l # ls) ! (j - n))) + real j * 0.62)
                  * motion ((l # ls) ! (j - n))
                + p * motion ((l # ls) ! (j - n)) * 0.65\<rparr>)
             (ref_at (leftRefs refs) j)
      else ref_at (leftRefs refs) j)"
    unfolding Cons.IH position_layer_left
    by (cases "j = n") (auto simp: nth_Cons')
  finally show ?case .
qed

lemma fold_position_right:
  "ref_at (rightRefs (fold (position_layer t p) (List.enumerate n ls) refs)) j =
     (if n \<le> j \<and> j < n + length ls
      then map_option
             (\<lambda>g. g\<lparr>position_y :=
                (sin (t * (0.34 + motion (ls ! (j - n))) + real j * 0.62) * motion (ls ! (j - n))
                 + p * motion (ls ! (j - n)) * 0.65) * 0.9\<rparr>)
             (ref_at (rightRefs refs) j)
      else ref_at (rightRefs refs) j)"
proof (induction ls arbitrary: n refs)
  case Nil
  show ?case by auto
next
  case (Cons l ls)
  have "ref_at (rightRefs (fold (position_layer t p) (List.enumerate n (l # ls)) refs)) j =
          ref_at (rightRefs (fold (position_layer t p) (List.enumerate (Suc n) ls)
            (position_layer t p (n, l) refs))) j"
    by simp
  also have "\<dots> = (if n \<le> j \<and> j < n + length (l # ls)
      then map_option
             (\<lambda>g. g\<lparr>position_y := (sin (t * (0.34 + motion ((l # ls) ! (j - n))) + real j * 0.62)
                  * motion ((l # ls) ! (j - n))
                + p * motion ((l # ls) ! (j - n)) * 0.65) * 0.9\<rparr>)
             (ref_at (rightRefs refs) j)
      else ref_at (rightRefs refs) j)"
    unfolding Cons.IH position_layer_right
    by (cases "j = n") (auto simp: nth_Cons')
  finally show ?case .
qed


lemma frame_left:
  "index < length layers \<Longrightarrow>
   ref_at (leftRefs (ValleyRanges_frame t bands refs)) index =
     map_option
       (\<lambda>g. g\<lparr>position_y :=
          sin (t * (0.34 + motion (layers ! index)) + real index * 0.62) * motion (layers ! index)
          + mid bands * motion (layers ! index) * 0.65\<rparr>)
       (ref_at (leftRefs refs) index)"
  by (simp add: ValleyRanges_frame_def Let_def fold_position_left)

lemma frame_right:
  "index < length layers \<Longrightarrow>
   ref_at (rightRefs (ValleyRanges_frame t bands refs)) index =
     map_option
       (\<lambda>g. g\<lparr>position_y :=
          (sin (t * (0.34 + motion (layers ! index)) + real index * 0.62) * motion (layers ! index)
           + mid bands * motion (layers ! index) * 0.65) * 0.9\<rparr>)
       (ref_at (rightRefs refs) index)"
  by (simp add: ValleyRanges_frame_def Let_def fold_position_right)

text \<open>
  C6. For every layer index and every tick time \<open>t\<close>, the frame callback gives the
  left group of the layer, when it is mounted, the vertical offset \<open>drift + lift\<close> with
  \<open>drift = sin (t * (0.34 + motion) + index * 0.62) * motion\<close> and
  \<open>lift = mid * motion * 0.65\<close>, and the right group, when it is mounted, that offset
  multiplied by 0.9; a group that is not mounted stays so. Hence the right offset is the
  left offset times 0.9.
\<close>

theorem frame_offsets:
  assumes "index < length layers"
    and "drift = sin (t * (0.34 + motion (layers ! index)) + real index * 0.62)
                   * motion (layers ! index)"
    and "lift = mid bands * motion (layers ! index) * 0.65"
  shows "ref_at (leftRefs (ValleyRanges_frame t bands refs)) index =
           map_option (\<lambda>g. g\<lparr>position_y := drift + lift\<rparr>) (ref_at (leftRefs refs) index)
     \<and> ref_at (rightRefs (ValleyRanges_frame t bands refs)) index =
           map_option (\<lambda>g. g\<lparr>position_y := (drift + lift) * 0.9\<rparr>) (ref_at (rightRefs refs) index)
     \<and> (ref_at (leftRefs (ValleyRanges_frame t bands refs)) index = Some gl
          \<and> ref_at (rightRefs (ValleyRanges_frame t bands refs)) index = Some gr
        \<longrightarrow> position_y gl = drift + lift \<and> position_y gr = position_y gl * 0.9)"
proof -
  have l: "ref_at (leftRefs (ValleyRanges_frame t bands refs)) index =
           map_option (\<lambda>g. g\<lparr>position_y := drift + lift\<rparr>) (ref_at (leftRefs refs) index)"
    unfolding assms(2,3) by (rule frame_left [OF assms(1)])
  have r: "ref_at (rightRefs (ValleyRanges_frame t bands refs)) index =
           map_option (\<lambda>g. g\<lparr>position_y := (drift + lift) * 0.9\<rparr>) (ref_at (rightRefs refs) index)"
    unfolding assms(2,3) by (rule frame_right [OF assms(1)])
  show ?thesis
    unfolding l r by auto
qed

theorem frame_offsets_witness:
  "(0::nat) < length layers
   \<and> ref_at (leftRefs (ValleyRanges_frame 0 \<lparr>bass = 0, mid = 1, treble = 0\<rparr>
        \<lparr>leftRefs = [Some \<lparr>position_y = 0\<rparr>], rightRefs = [Some \<lparr>position_y = 0\<rparr>]\<rparr>)) 0 =
       Some \<lparr>position_y = 0.052\<rparr>
   \<and> ref_at (rightRefs (ValleyRanges_frame 0 \<lparr>bass = 0, mid = 1, treble = 0\<rparr>
        \<lparr>leftRefs = [Some \<lparr>position_y = 0\<rparr>], rightRefs = [Some \<lparr>position_y = 0\<rparr>]\<rparr>)) 0 =
       Some \<lparr>position_y = 0.0468\<rparr>"
  using frame_offsets [of 0 0 0 "0.052" "\<lparr>bass = 0, mid = 1, treble = 0\<rparr>"
      "\<lparr>leftRefs = [Some \<lparr>position_y = 0\<rparr>], rightRefs = [Some \<lparr>position_y = 0\<rparr>]\<rparr>"]
  by (simp add: length_layers nth_layers layer_fields ref_at_def)

lemma offset_bound_linear:
  fixes a b c :: real
  shows "\<bar>a\<bar> \<le> c \<Longrightarrow> 0 \<le> b \<Longrightarrow> b \<le> c * (13 / 20) \<Longrightarrow> \<bar>a + b\<bar> \<le> c * (33 / 20)"
  by linarith

lemma offset_bound:
  fixes m p x :: real
  assumes "0 \<le> m" "0 \<le> p" "p \<le> 1"
  shows "\<bar>sin x * m + p * m * 0.65\<bar> \<le> m * 1.65"
proof -
  have "\<bar>sin x * m\<bar> = \<bar>sin x\<bar> * m"
    by (rule abs_mult_pos [symmetric, OF assms(1)])
  also have "\<dots> \<le> 1 * m"
    by (rule mult_right_mono [OF _ assms(1)]) simp
  finally have d: "\<bar>sin x * m\<bar> \<le> m" by simp
  have "p * m \<le> 1 * m"
    by (rule mult_right_mono [OF assms(3,1)])
  then have l: "p * m * (13 / 20) \<le> m * (13 / 20)" by (simp add: mult.commute)
  have "0 \<le> p * m" using assms(1,2) by simp
  then have l0: "0 \<le> p * m * (13 / 20)" by simp
  show ?thesis
    using offset_bound_linear [OF d l0 l] by simp
qed

lemma motion_nonneg: "index < length layers \<Longrightarrow> 0 \<le> motion (layers ! index)"
  by (simp add: length_layers nth_layers layer_fields)

text \<open>
  C10. For every layer and every tick, if \<open>mid\<close> lies in \<open>[0, 1]\<close> then the offset written
  to the left group has absolute value at most \<open>motion * 1.65\<close> and the offset written to
  the right group at most \<open>motion * 1.65 * 0.9\<close>.
\<close>

theorem frame_offsets_bounded:
  assumes "index < length layers" and "0 \<le> mid bands" and "mid bands \<le> 1"
  shows "(ref_at (leftRefs (ValleyRanges_frame t bands refs)) index = Some gl
            \<longrightarrow> \<bar>position_y gl\<bar> \<le> motion (layers ! index) * 1.65)
     \<and> (ref_at (rightRefs (ValleyRanges_frame t bands refs)) index = Some gr
            \<longrightarrow> \<bar>position_y gr\<bar> \<le> motion (layers ! index) * 1.65 * 0.9)"
proof -
  let ?m = "motion (layers ! index)"
  let ?y = "sin (t * (0.34 + ?m) + real index * 0.62) * ?m + mid bands * ?m * 0.65"
  have b: "\<bar>?y\<bar> \<le> ?m * 1.65"
    by (rule offset_bound [OF motion_nonneg [OF assms(1)] assms(2,3)])
  have "\<bar>?y * 0.9\<bar> = \<bar>?y\<bar> * 0.9"
    by (rule abs_mult_pos [symmetric]) simp
  also have "\<dots> \<le> ?m * 1.65 * 0.9"
    by (rule mult_right_mono [OF b]) simp
  finally have b9: "\<bar>?y * 0.9\<bar> \<le> ?m * 1.65 * 0.9" .
  have "\<bar>position_y gl\<bar> \<le> ?m * 1.65"
    if "ref_at (leftRefs (ValleyRanges_frame t bands refs)) index = Some gl"
    using that b unfolding frame_left [OF assms(1)] by auto
  moreover have "\<bar>position_y gr\<bar> \<le> ?m * 1.65 * 0.9"
    if "ref_at (rightRefs (ValleyRanges_frame t bands refs)) index = Some gr"
    using that b9 unfolding frame_right [OF assms(1)] by auto
  ultimately show ?thesis by blast
qed

theorem frame_offsets_bounded_witness:
  "(0::nat) < length layers
   \<and> ref_at (leftRefs (ValleyRanges_frame 0 \<lparr>bass = 0, mid = 1 / 2, treble = 0\<rparr>
        \<lparr>leftRefs = [Some \<lparr>position_y = 7\<rparr>], rightRefs = [Some \<lparr>position_y = 7\<rparr>]\<rparr>)) 0 =
       Some \<lparr>position_y = 0.026\<rparr>
   \<and> \<bar>position_y \<lparr>position_y = 0.026\<rparr>\<bar> \<le> motion (layers ! 0) * 1.65
   \<and> ref_at (rightRefs (ValleyRanges_frame 0 \<lparr>bass = 0, mid = 1 / 2, treble = 0\<rparr>
        \<lparr>leftRefs = [Some \<lparr>position_y = 7\<rparr>], rightRefs = [Some \<lparr>position_y = 7\<rparr>]\<rparr>)) 0 =
       Some \<lparr>position_y = 0.0234\<rparr>
   \<and> \<bar>position_y \<lparr>position_y = 0.0234\<rparr>\<bar> \<le> motion (layers ! 0) * 1.65 * 0.9"
proof -
  let ?b = "\<lparr>bass = 0, mid = 1 / 2, treble = 0\<rparr>"
  let ?refs = "\<lparr>leftRefs = [Some \<lparr>position_y = 7\<rparr>], rightRefs = [Some \<lparr>position_y = 7\<rparr>]\<rparr>"
  have i: "(0::nat) < length layers" by (simp add: length_layers)
  have l: "ref_at (leftRefs (ValleyRanges_frame 0 ?b ?refs)) 0 = Some \<lparr>position_y = 0.026\<rparr>"
    unfolding frame_left [OF i] by (simp add: nth_layers layer_fields ref_at_def)
  have r: "ref_at (rightRefs (ValleyRanges_frame 0 ?b ?refs)) 0 = Some \<lparr>position_y = 0.0234\<rparr>"
    unfolding frame_right [OF i] by (simp add: nth_layers layer_fields ref_at_def)
  show ?thesis
    using frame_offsets_bounded [of 0 ?b 0 ?refs "\<lparr>position_y = 0.026\<rparr>" "\<lparr>position_y = 0.0234\<rparr>"]
      i l r
    by simp
qed

section \<open>Capture lifecycle: properties\<close>

lemma nth_update_any:
  "j < length xs \<Longrightarrow> xs[k := x] ! j = (if k = j then x else xs ! j)"
  by (cases "k = j") simp_all

lemma orderly_iff:
  "orderly h \<longleftrightarrow> (\<forall>k<length (captures h). orderly_capture h k)"
  by (auto simp: orderly_def list_all_iff)

lemma cooled_iff:
  "cooled h \<longleftrightarrow>
     bands_current h = EMPTY_BANDS \<and>
     (\<forall>k<length (captures h). phase (captures h ! k) = Acquiring \<or> phase (captures h ! k) = Ended)"
  by (simp add: cooled_def list_all_length)

lemma cooled_cleanup: "cooled h \<Longrightarrow> cooled (cleanup k h)"
  by (auto simp: cooled_iff cleanup_def update_capture_def Let_def nth_update_any)

lemma cooled_run_effect: "cooled h \<Longrightarrow> cooled (run_effect h)"
  by (auto simp: cooled_iff run_effect_def nth_append)

lemma cooled_rerun_effect:
  assumes "cooled h"
  shows "cooled (rerun_effect h)"
proof (cases "cleanup_of h")
  case None
  then show ?thesis
    using assms by (simp add: rerun_effect_def cooled_run_effect)
next
  case (Some k)
  then show ?thesis
    using assms by (simp add: rerun_effect_def cooled_run_effect cooled_cleanup)
qed

lemma cooled_field_update:
  "cooled (h\<lparr>enabled := b\<rparr>) = cooled h"
  "cooled (h\<lparr>mode := m\<rparr>) = cooled h"
  "cooled (h\<lparr>error := e\<rparr>) = cooled h"
  by (simp_all add: cooled_def)

lemma cooled_end_capture:
  "cooled h \<Longrightarrow> cooled (update_capture k (\<lambda>c. c\<lparr>phase := Ended\<rparr>) h)"
  by (auto simp: cooled_iff update_capture_def nth_update_any)

lemma cooled_not_past_acquisition:
  "cooled h \<Longrightarrow> \<not> in_phase h k Resuming \<and> \<not> in_phase h k Ticking"
  by (auto simp: cooled_iff in_phase_def)

lemma cooled_step:
  assumes "cooled h" and "\<not> starts h e"
  shows "cooled (step h e)"
proof (cases e)
  case (SetEnabled b)
  then show ?thesis
    using assms(1) by (simp add: cooled_rerun_effect cooled_field_update)
next
  case (SetMode m)
  then show ?thesis
    using assms(1) by (simp add: cooled_rerun_effect cooled_field_update)
next
  case (AcquireOk k)
  then show ?thesis
    using assms by (auto simp: cooled_end_capture)
next
  case (AcquireFail k message)
  then show ?thesis
    using assms(1) by (simp add: cooled_end_capture cooled_field_update)
next
  case (ResumeOk k buf)
  then show ?thesis
    using assms(1) cooled_not_past_acquisition [OF assms(1), of k] by simp
next
  case (ResumeFail k message)
  then show ?thesis
    using assms(1) cooled_not_past_acquisition [OF assms(1), of k] by simp
next
  case (Frame k buf)
  then show ?thesis
    using assms(1) cooled_not_past_acquisition [OF assms(1), of k] by simp
qed

lemma cooled_run:
  "cooled h \<Longrightarrow> no_start h events \<Longrightarrow> cooled (run h events)"
proof (induction events arbitrary: h)
  case Nil
  then show ?case by (simp add: run_def)
next
  case (Cons e events)
  from Cons.prems have "cooled (step h e)" and "no_start (step h e) events"
    by (simp_all add: cooled_step)
  then have "cooled (run (step h e) events)" by (rule Cons.IH)
  then show ?case by (simp add: run_def)
qed

lemma stop_cools:
  assumes "orderly h" and "enabled h"
  shows "cooled (step h (SetEnabled False))"
proof -
  have ord: "\<And>k. k < length (captures h) \<Longrightarrow> orderly_capture h k"
    using assms(1) by (simp add: orderly_iff)
  show ?thesis
  proof (cases "cleanup_of h")
    case None
    have "phase (captures h ! k) = Acquiring \<or> phase (captures h ! k) = Ended"
      if "k < length (captures h)" for k
      using ord [OF that] None by (auto simp: orderly_capture_def Let_def)
    then show ?thesis
      using assms(2) None
      by (simp add: rerun_effect_def run_effect_def cooled_iff)
  next
    case (Some j)
    have "phase (captures (cleanup j h) ! k) = Acquiring \<or> phase (captures (cleanup j h) ! k) = Ended"
      if "k < length (captures h)" for k
      using ord [OF that] Some that
      by (auto simp: orderly_capture_def Let_def cleanup_def update_capture_def nth_update_any)
    moreover have "length (captures (cleanup j h)) = length (captures h)"
      by (simp add: cleanup_def update_capture_def)
    ultimately show ?thesis
      using assms(2) Some
      by (simp add: rerun_effect_def run_effect_def cooled_iff cleanup_def update_capture_def)
  qed
qed

lemma settled_iff:
  "settled h \<longleftrightarrow>
     0 < next_handle h \<and>
     (\<forall>k<length (captures h).
        orderly_capture h k \<and> (\<not> cancelled (captures h ! k) \<longrightarrow> cleanup_of h = Some k))"
  by (auto simp: settled_def orderly_iff list_all_iff)

lemma settled_mount: "settled mount"
  by (simp add: settled_iff mount_def run_effect_def)

lemma settled_rerun_effect:
  assumes "settled h"
  shows "settled (rerun_effect (h\<lparr>enabled := b\<rparr>))" and "settled (rerun_effect (h\<lparr>mode := m\<rparr>))"
  using assms
  by (auto simp: settled_iff rerun_effect_def run_effect_def cleanup_def update_capture_def
      orderly_capture_def Let_def nth_update_any nth_append split: option.splits)

lemma settled_plain_step:
  assumes "settled h"
  shows "settled (step h (SetEnabled b))" and "settled (step h (SetMode m))"
    and "settled (step h (AcquireFail k message))" and "settled (step h (Frame k buf))"
proof -
  show "settled (step h (SetEnabled b))" "settled (step h (SetMode m))"
    using assms by (simp_all add: settled_rerun_effect)
  show "settled (step h (AcquireFail k message))"
    using assms
    by (auto simp: settled_iff update_capture_def in_phase_def orderly_capture_def Let_def
        nth_update_any)
  show "settled (step h (Frame k buf))"
    using assms
    by (auto simp: settled_iff update_capture_def capture_tick_def in_phase_def
        orderly_capture_def Let_def nth_update_any)
qed

lemma settled_start:
  assumes "settled h"
  shows "settled (step (step h (AcquireOk k)) (ResumeOk k buf))"
    and "settled (step (step h (AcquireOk k)) (ResumeFail k message))"
  using assms
  by (auto simp: settled_iff update_capture_def capture_tick_def in_phase_def
      orderly_capture_def Let_def nth_update_any)

lemma run_simps:
  "run h [] = h"
  "run h (e # events) = run (step h e) events"
  by (simp_all add: run_def)

lemma prompt_settled:
  "settled h \<Longrightarrow> prompt events \<Longrightarrow> settled (run h events)"
  by (induction events arbitrary: h rule: prompt.induct)
    (simp_all add: run_simps settled_plain_step settled_start del: step.simps)

text \<open>
  Orderly hooks are the ordinary ones: whatever the user and the browser do after the
  first render, as long as every resume settles promptly, the hook is orderly.
\<close>

lemma prompt_orderly: "prompt events \<Longrightarrow> orderly (run mount events)"
  using prompt_settled [OF settled_mount] by (simp add: settled_def)

text \<open>
  C9, amended. When capture is stopped with Stop (\<open>enabled\<close> goes from true to false) in
  an orderly hook, the bands are reset to the all-zero baseline, and no later event
  changes them for as long as no acquisition of a capture that has not been cancelled
  resolves: the cleanup has cancelled the scheduled \<open>tick\<close>, and the effect body, run with
  \<open>enabled\<close> false, has reset the bands. The statement is about Stop only; a teardown
  by a change of mode does not reset the bands. It says nothing about a Stop that arrives
  while a capture waits for \<open>audioContext.resume()\<close>.
\<close>

theorem stop_cools_down:
  assumes "orderly h" and "enabled h"
    and "no_start (step h (SetEnabled False)) events"
  shows "bands_current (run (step h (SetEnabled False)) events) = EMPTY_BANDS
     \<and> cooled (run (step h (SetEnabled False)) events)"
  using cooled_run [OF stop_cools [OF assms(1,2)] assms(3)] by (simp add: cooled_def)


lemma tick_loud:
  "tick (replicate 256 255) b =
     \<lparr>bass = lerp (bass b) 1 0.2, mid = lerp (mid b) 1 0.2, treble = lerp (treble b) 1 0.2\<rparr>"
proof -
  have "averageBand (replicate 256 255) 0 14 = 1"
    using averageBand_const [of 0 14 "replicate 256 255" 255] by simp
  moreover have "averageBand (replicate 256 255) 18 70 = 1"
    using averageBand_const [of 18 70 "replicate 256 255" 255] by simp
  moreover have "averageBand (replicate 256 255) 90 180 = 1"
    using averageBand_const [of 90 180 "replicate 256 255" 255] by simp
  ultimately show ?thesis
    by (cases b) (simp add: tick_def)
qed

lemmas lifecycle_eval =
  run_def rerun_effect_def run_effect_def cleanup_def update_capture_def capture_tick_def
  in_phase_def mount_def tick_loud lerp_def EMPTY_BANDS_def

lemma connected_state:
  "run mount [SetEnabled True, AcquireOk 0, ResumeOk 0 (replicate 256 255)] =
     \<lparr>mode = Tab, enabled = True,
      bands_current = \<lparr>bass = 0.2, mid = 0.2, treble = 0.2\<rparr>,
      error = None,
      captures = [\<lparr>cancelled = False, animationFrameId = 1, phase = Ticking\<rparr>],
      cleanup_of = Some 0, next_handle = 2\<rparr>"
  by (simp add: lifecycle_eval)

text \<open>
  C9, as stated: whenever capture is stopped, after a teardown and before the next
  successful start, the bands are all zero. A change of mode while capture is running
  tears the capture down through the same cleanup, but the effect body then runs with
  \<open>enabled\<close> true and does not reset the bands. Here the tab capture has ticked once on a
  snapshot of 256 bins at 255, the mode is switched to the microphone, and the new
  acquisition is rejected: both captures have ended, none has started since, and the
  bands still hold 0.2.
\<close>

theorem mode_switch_counterexample:
  "map phase (captures (run mount
      [SetEnabled True, AcquireOk 0, ResumeOk 0 (replicate 256 255), SetMode Mic,
       AcquireFail 1 ''denied''])) = [Ended, Ended]
   \<and> bands_current (run mount
      [SetEnabled True, AcquireOk 0, ResumeOk 0 (replicate 256 255), SetMode Mic,
       AcquireFail 1 ''denied'']) = \<lparr>bass = 0.2, mid = 0.2, treble = 0.2\<rparr>
   \<and> bands_current (run mount
      [SetEnabled True, AcquireOk 0, ResumeOk 0 (replicate 256 255), SetMode Mic,
       AcquireFail 1 ''denied'']) \<noteq> EMPTY_BANDS"
  by (simp add: lifecycle_eval)

text \<open>
  Why the amended statement asks for an orderly hook: \<open>init\<close> reads \<open>cancelled\<close> once,
  before it waits for \<open>audioContext.resume()\<close>. A cleanup that runs during that wait
  finds \<open>animationFrameId = 0\<close> and cancels nothing, and if the browser then resolves the
  promise, \<open>tick\<close> runs after Stop and writes the bands.
\<close>

lemma stop_while_resuming:
  "run mount [SetEnabled True, AcquireOk 0, SetEnabled False, ResumeOk 0 (replicate 256 255)] =
     \<lparr>mode = Tab, enabled = False,
      bands_current = \<lparr>bass = 0.2, mid = 0.2, treble = 0.2\<rparr>,
      error = None,
      captures = [\<lparr>cancelled = True, animationFrameId = 1, phase = Ticking\<rparr>],
      cleanup_of = None, next_handle = 2\<rparr>"
  by (simp add: lifecycle_eval)

theorem stop_cools_down_witness:
  "orderly (run mount [SetEnabled True, AcquireOk 0, ResumeOk 0 (replicate 256 255)])
   \<and> enabled (run mount [SetEnabled True, AcquireOk 0, ResumeOk 0 (replicate 256 255)])
   \<and> bands_current (run mount [SetEnabled True, AcquireOk 0, ResumeOk 0 (replicate 256 255)])
       \<noteq> EMPTY_BANDS
   \<and> no_start
        (step (run mount [SetEnabled True, AcquireOk 0, ResumeOk 0 (replicate 256 255)])
           (SetEnabled False))
        [Frame 0 (replicate 256 255), SetMode Mic, SetEnabled True, AcquireFail 1 ''denied'',
         Frame 0 (replicate 256 255)]
   \<and> bands_current
        (run (step (run mount [SetEnabled True, AcquireOk 0, ResumeOk 0 (replicate 256 255)])
                (SetEnabled False))
           [Frame 0 (replicate 256 255), SetMode Mic, SetEnabled True, AcquireFail 1 ''denied'',
            Frame 0 (replicate 256 255)]) = EMPTY_BANDS"
proof -
  let ?h = "run mount [SetEnabled True, AcquireOk 0, ResumeOk 0 (replicate 256 255)]"
  let ?events = "[Frame 0 (replicate 256 255), SetMode Mic, SetEnabled True,
                  AcquireFail 1 ''denied'', Frame 0 (replicate 256 255)]"
  have o: "orderly ?h"
    unfolding connected_state by (simp add: orderly_def orderly_capture_def)
  have e: "enabled ?h"
    unfolding connected_state by simp
  have b: "bands_current ?h \<noteq> EMPTY_BANDS"
    unfolding connected_state by (simp add: EMPTY_BANDS_def)
  have n: "no_start (step ?h (SetEnabled False)) ?events"
    unfolding connected_state
    by (simp add: rerun_effect_def run_effect_def cleanup_def update_capture_def
        capture_tick_def in_phase_def)
  show ?thesis
    using stop_cools_down [OF o e n] o e b n by blast
qed

end
